theory Spec2Isabelle
  imports Complex_Main "HOL-Library.Multiset"
begin

section \<open>Data model (src/types.ts)\<close>

text \<open>
  A JavaScript string is a sequence of code units. The model uses \<^typ>\<open>string\<close>, whose
  characters are the code units U+0000 to U+00FF (ASCII and Latin-1); \<open>length\<close> is then
  the \<^verbatim>\<open>.length\<close> of the source.
\<close>

datatype SkillCategory = language | framework | tool | soft

record Skill =
  id' :: string
  label :: string
  aliases :: "string list"
  category :: SkillCategory

text \<open>\<^verbatim>\<open>ImportanceLevel = 1 | 2 | 3\<close>: a type with exactly three values.\<close>

datatype ImportanceLevel = Imp1 | Imp2 | Imp3

fun importanceValue :: "ImportanceLevel \<Rightarrow> nat" where
  "importanceValue Imp1 = 1"
| "importanceValue Imp2 = 2"
| "importanceValue Imp3 = 3"

record RoleSkillRequirement =
  skillId :: string
  importance :: ImportanceLevel

record RoleDefinition =
  role_id :: string
  name :: string
  description :: string
  responsibilities :: "string list"
  requiredSkills :: "RoleSkillRequirement list"

record GapAnalysisResult =
  roleId :: string
  normalizedUserSkills :: "string list"
  matchedSkills :: "string list"
  missingSkills :: "string list"
  readinessPercent :: int
  weightedReadinessPercent :: int
  missingSkillsByCategory :: "SkillCategory \<Rightarrow> string list"

section \<open>String primitives of the runtime\<close>

definition codeUnit :: "char \<Rightarrow> nat" where
  "codeUnit c = of_char c"

text \<open>
  \<^verbatim>\<open>String.prototype.toLowerCase\<close>: on U+0000..U+00FF the upper-case letters are
  A..Z and U+00C0..U+00DE without the multiplication sign U+00D7; each moves up by 0x20,
  which sets bit 5 of the code unit.
\<close>

definition toLowerCaseUnit :: "char \<Rightarrow> char" where
  "toLowerCaseUnit c =
     (if (65 \<le> codeUnit c \<and> codeUnit c \<le> 90)
         \<or> (192 \<le> codeUnit c \<and> codeUnit c \<le> 222 \<and> codeUnit c \<noteq> 215)
      then (case c of Char b0 b1 b2 b3 b4 b5 b6 b7 \<Rightarrow> Char b0 b1 b2 b3 b4 True b6 b7)
      else c)"

definition toLowerCase :: "string \<Rightarrow> string" where
  "toLowerCase s = map toLowerCaseUnit s"

text \<open>
  \<^verbatim>\<open>Canonicalize\<close> of the pattern semantics under the \<^verbatim>\<open>i\<close> flag without the
  \<^verbatim>\<open>u\<close> flag: the code unit's upper-case form when that is a single code unit. On
  U+0000..U+00FF the letters a..z and U+00E0..U+00FE (without the division sign U+00F7)
  move down by 0x20. U+00B5 and U+00FF have upper-case forms beyond U+00FF that no other
  code unit of this range shares, and U+00DF has none of one code unit, so the three are
  compared as themselves.
\<close>

definition Canonicalize :: "char \<Rightarrow> char" where
  "Canonicalize c =
     (if (97 \<le> codeUnit c \<and> codeUnit c \<le> 122)
         \<or> (224 \<le> codeUnit c \<and> codeUnit c \<le> 254 \<and> codeUnit c \<noteq> 247)
      then (case c of Char b0 b1 b2 b3 b4 b5 b6 b7 \<Rightarrow> Char b0 b1 b2 b3 b4 False b6 b7)
      else c)"

text \<open>\<^verbatim>\<open>WordCharacters\<close> without the \<^verbatim>\<open>u\<close> flag: a..z, A..Z, 0..9 and the underscore.\<close>

definition WordCharacter :: "char \<Rightarrow> bool" where
  "WordCharacter c =
     ((97 \<le> codeUnit c \<and> codeUnit c \<le> 122) \<or> (65 \<le> codeUnit c \<and> codeUnit c \<le> 90)
      \<or> (48 \<le> codeUnit c \<and> codeUnit c \<le> 57) \<or> codeUnit c = 95)"

text \<open>
  White space and line terminators, the class of \<^verbatim>\<open>\s\<close> and of \<^verbatim>\<open>trim\<close>:
  TAB, LF, VT, FF, CR, SP and NBSP in this range.
\<close>

definition WhiteSpace :: "char \<Rightarrow> bool" where
  "WhiteSpace c = (codeUnit c \<in> {9, 10, 11, 12, 13, 32, 160})"

definition trimStart :: "string \<Rightarrow> string" where
  "trimStart s = dropWhile WhiteSpace s"

definition trim :: "string \<Rightarrow> string" where
  "trim s = rev (dropWhile WhiteSpace (rev (trimStart s)))"

section \<open>Regular expressions: the part of the engine that the extractor reaches\<close>

datatype error = SyntaxError string | Error string

text \<open>The fourteen \<^verbatim>\<open>SyntaxCharacter\<close>s of the pattern grammar: \<^verbatim>\<open>^ $ \ . * + ? ( ) [ ] { } |\<close>.\<close>

definition backslash :: char where
  "backslash = CHR 0x5C"

definition SyntaxCharacter :: "char \<Rightarrow> bool" where
  "SyntaxCharacter c = (c \<in> set (''^$.*+?()[]{}|'' @ [backslash]))"

text \<open>
  A parsed pattern is a sequence of terms. Two kinds of term occur in the sources that
  \<^verbatim>\<open>extractSkillsFromText\<close> builds: the assertion \<^verbatim>\<open>\b\<close> and an atom matching one
  character.
\<close>

datatype Term = WordBoundary | PatternCharacter char

text \<open>
  Parsing a pattern source. A character that is no syntax character stands for itself; a
  backslash followed by a syntax character is an identity escape and stands for that
  character; \<^verbatim>\<open>\b\<close> is the word-boundary assertion; a backslash at the end of the source is
  a SyntaxError. Every other source (an unescaped syntax character, any other escape) is
  outside this fragment and is rejected here, although the engine accepts some of
  them: the model never accepts a source that the engine rejects.
\<close>

fun parsePattern :: "string \<Rightarrow> error + Term list" where
  "parsePattern [] = Inr []"
| "parsePattern (c # cs) =
     (if c = backslash then
        (case cs of
           [] \<Rightarrow> Inl (SyntaxError ''backslash at end of pattern'')
         | d # ds \<Rightarrow>
             if d = CHR ''b'' then map_sum (\<lambda>e. e) (\<lambda>ts. WordBoundary # ts) (parsePattern ds)
             else if SyntaxCharacter d
               then map_sum (\<lambda>e. e) (\<lambda>ts. PatternCharacter d # ts) (parsePattern ds)
             else Inl (SyntaxError ''escape outside the modelled fragment''))
      else if SyntaxCharacter c then Inl (SyntaxError ''syntax character outside the modelled fragment'')
      else map_sum (\<lambda>e. e) (\<lambda>ts. PatternCharacter c # ts) (parsePattern cs))"

text \<open>
  A RegExp object created with the flags \<^verbatim>\<open>gi\<close>: the compiled pattern and the
  \<^verbatim>\<open>lastIndex\<close> at which the next \<^verbatim>\<open>test\<close> of a global expression starts; a new object has
  \<^verbatim>\<open>lastIndex = 0\<close>.
\<close>

record RegExp =
  matcher :: "Term list"
  lastIndex :: nat

definition newRegExp :: "string \<Rightarrow> error + RegExp" where
  "newRegExp source = map_sum (\<lambda>e. e) (\<lambda>ts. \<lparr>matcher = ts, lastIndex = 0\<rparr>) (parsePattern source)"

text \<open>
  \<^verbatim>\<open>IsWordChar(e)\<close>: false at \<open>-1\<close> and at the input's length, otherwise whether the
  character at \<open>e\<close> is a word character.
\<close>

definition IsWordChar :: "string \<Rightarrow> int \<Rightarrow> bool" where
  "IsWordChar Input e =
     (if e = -1 \<or> e = int (length Input) then False
      else if 0 \<le> e \<and> e < int (length Input) then WordCharacter (Input ! nat e)
      else False)"

text \<open>
  Matching a sequence of terms at position \<open>x\<close> of the input; the result is the end
  position, or \<open>None\<close> for failure. \<^verbatim>\<open>\b\<close> succeeds when exactly one of the two
  neighbouring positions holds a word character. Characters are compared after
  \<^verbatim>\<open>Canonicalize\<close> (flag \<^verbatim>\<open>i\<close>).
\<close>

fun matchTerms :: "Term list \<Rightarrow> string \<Rightarrow> nat \<Rightarrow> nat option" where
  "matchTerms [] Input x = Some x"
| "matchTerms (WordBoundary # ts) Input x =
     (if IsWordChar Input (int x - 1) \<noteq> IsWordChar Input (int x) then matchTerms ts Input x
      else None)"
| "matchTerms (PatternCharacter ch # ts) Input x =
     (if length Input \<le> x then None
      else if Canonicalize (Input ! x) = Canonicalize ch then matchTerms ts Input (x + 1)
      else None)"

text \<open>
  \<^verbatim>\<open>RegExpBuiltinExec\<close> for a global expression: starting at \<^verbatim>\<open>lastIndex\<close>, try each
  position up to and including the input's length; past it, fail.
\<close>

function execFrom :: "Term list \<Rightarrow> string \<Rightarrow> nat \<Rightarrow> nat option" where
  "execFrom ts S i =
     (if length S < i then None
      else (case matchTerms ts S i of
              None \<Rightarrow> execFrom ts S (i + 1)
            | Some e \<Rightarrow> Some e))"
  by pat_completeness auto
termination
  by (relation "measure (\<lambda>(ts, S, i). Suc (length S) - i)") auto

declare execFrom.simps [simp del]

definition test :: "RegExp \<Rightarrow> string \<Rightarrow> bool" where
  "test regex S = (execFrom (matcher regex) S (lastIndex regex) \<noteq> None)"




section \<open>The skill extractor (utils/resumeParser.ts)\<close>

record SkillMatch =
  pattern :: string
  matchSkillId :: string

text \<open>The first loop: the entries pushed for one skill, in the order of the pushes.\<close>

definition skillEntries :: "Skill \<Rightarrow> SkillMatch list" where
  "skillEntries skill =
     [\<lparr>pattern = toLowerCase (label skill), matchSkillId = id' skill\<rparr>]
     @ (if toLowerCase (id' skill) \<noteq> toLowerCase (label skill)
        then [\<lparr>pattern = toLowerCase (id' skill), matchSkillId = id' skill\<rparr>] else [])
     @ map (\<lambda>alias. \<lparr>pattern = toLowerCase alias, matchSkillId = id' skill\<rparr>) (aliases skill)"

definition buildSkillMatches :: "Skill list \<Rightarrow> SkillMatch list" where
  "buildSkillMatches skills = concat (map skillEntries skills)"

text \<open>
  \<^verbatim>\<open>skillMatches.sort((a, b) => b.pattern.length - a.pattern.length)\<close>. The sort of the
  runtime is stable; it is modelled as a stable insertion sort under the source's
  comparator (\<open>a\<close> goes behind \<open>b\<close> when the comparator is positive).
\<close>

definition compareFn :: "SkillMatch \<Rightarrow> SkillMatch \<Rightarrow> int" where
  "compareFn a b = int (length (pattern b)) - int (length (pattern a))"

fun insertMatch :: "SkillMatch \<Rightarrow> SkillMatch list \<Rightarrow> SkillMatch list" where
  "insertMatch a [] = [a]"
| "insertMatch a (b # bs) = (if 0 < compareFn a b then b # insertMatch a bs else a # b # bs)"

definition sortMatches :: "SkillMatch list \<Rightarrow> SkillMatch list" where
  "sortMatches ms = foldr insertMatch ms []"

text \<open>
  \<^verbatim>\<open>pattern.replace(/[.*+?^${}()|[\]\\]/g, '\\$&')\<close>: a backslash goes in front of each
  character of the class.
\<close>

definition escapeClass :: "char \<Rightarrow> bool" where
  "escapeClass c = (c \<in> set (''.*+?^${}()|[]'' @ [backslash]))"

fun escapeRegExp :: "string \<Rightarrow> string" where
  "escapeRegExp [] = []"
| "escapeRegExp (c # cs) = (if escapeClass c then backslash # c # escapeRegExp cs else c # escapeRegExp cs)"

definition boundarySource :: "string \<Rightarrow> string" where
  "boundarySource p = [backslash, CHR ''b''] @ escapeRegExp p @ [backslash, CHR ''b'']"

text \<open>The state of the second loop: the output array and the set of ids seen.\<close>

record ScanState =
  extractedSkills :: "string list"
  seen :: "string set"

fun scanMatches :: "string \<Rightarrow> SkillMatch list \<Rightarrow> ScanState \<Rightarrow> error + ScanState" where
  "scanMatches text [] st = Inr st"
| "scanMatches text (m # ms) st =
     (case newRegExp (boundarySource (pattern m)) of
        Inl e \<Rightarrow> Inl e
      | Inr regex \<Rightarrow>
          scanMatches text ms
            (if test regex text \<and> matchSkillId m \<notin> seen st
             then \<lparr>extractedSkills = extractedSkills st @ [matchSkillId m],
                   seen = insert (matchSkillId m) (seen st)\<rparr>
             else st))"

definition extractSkillsFromText :: "string \<Rightarrow> Skill list \<Rightarrow> error + string list" where
  "extractSkillsFromText text skills =
     map_sum (\<lambda>e. e) extractedSkills
       (scanMatches text (sortMatches (buildSkillMatches skills))
          \<lparr>extractedSkills = [], seen = {}\<rparr>)"

text \<open>
  The condition of the second loop for one pattern: the expression is built and tested
  against the text.
\<close>

definition wholeWordMatch :: "string \<Rightarrow> string \<Rightarrow> bool" where
  "wholeWordMatch p text =
     (case newRegExp (boundarySource p) of Inl e \<Rightarrow> False | Inr regex \<Rightarrow> test regex text)"



section \<open>The LinkedIn text parser (utils/linkedinParser.ts)\<close>

text \<open>\<^verbatim>\<open>text.replace(/\s+/g, ' ')\<close>: each maximal run of white space becomes one space.\<close>

function replaceWhiteSpaceRuns :: "string \<Rightarrow> string" where
  "replaceWhiteSpaceRuns [] = []"
| "replaceWhiteSpaceRuns (c # cs) =
     (if WhiteSpace c then CHR '' '' # replaceWhiteSpaceRuns (dropWhile WhiteSpace cs)
      else c # replaceWhiteSpaceRuns cs)"
  by pat_completeness auto
termination
  by (relation "measure length") (auto simp: length_dropWhile_le less_Suc_eq_le)

definition parseLinkedInText :: "string \<Rightarrow> Skill list \<Rightarrow> error + string list" where
  "parseLinkedInText text skills =
     (if text = [] \<or> length (trim text) = 0
      then Inl (Error ''Please paste some text from your LinkedIn profile.'')
      else (let cleanedText = trim (replaceWhiteSpaceRuns text)
            in extractSkillsFromText cleanedText skills))"

section \<open>The gap analyzer\<close>

text \<open>
  Modelled from the spec: \<^verbatim>\<open>utils/gapAnalysis.ts\<close> (\<^verbatim>\<open>analyzeGaps\<close>, the analyzer of
  section 4.2 of the specification) is imported by \<^verbatim>\<open>App.tsx\<close> and is not among the
  sources; only its types are (\<^verbatim>\<open>types.ts\<close>). The lookup of a skill's category in the
  vocabulary.
\<close>

definition categoryOf :: "Skill list \<Rightarrow> string \<Rightarrow> SkillCategory option" where
  "categoryOf vocabulary sid = map_option category (find (\<lambda>s. id' s = sid) vocabulary)"

text \<open>
  Modelled from the spec: the sum of the importance weights of a list of requirements,
  the raw integers 1 to 3.
\<close>

definition importanceSum :: "RoleSkillRequirement list \<Rightarrow> nat" where
  "importanceSum rs = sum_list (map (\<lambda>r. importanceValue (importance r)) rs)"

text \<open>
  Modelled from the spec: \<open>round(100 * part / whole)\<close>, with 100 for a role without
  requirements as a case of its own.
\<close>

definition readiness :: "RoleSkillRequirement list \<Rightarrow> nat \<Rightarrow> nat \<Rightarrow> int" where
  "readiness requirements part whole =
     (if requirements = [] then 100 else round (100 * real part / real whole))"

text \<open>
  Modelled from the spec: the analyzer (section 4.2, steps 1 to 6). The user's ids are
  filtered against the vocabulary; each requirement is matched when its skill id is among
  them and missing otherwise; the two scores; the missing ids grouped by the category
  the vocabulary gives them.
\<close>

definition analyzeGaps :: "string list \<Rightarrow> RoleDefinition \<Rightarrow> Skill list \<Rightarrow> GapAnalysisResult" where
  "analyzeGaps userSkillIds role vocabulary =
     (let normalized = filter (\<lambda>u. u \<in> id' ` set vocabulary) userSkillIds;
          matched = filter (\<lambda>r. skillId r \<in> set normalized) (requiredSkills role);
          missing = filter (\<lambda>r. skillId r \<notin> set normalized) (requiredSkills role)
      in \<lparr>roleId = role_id role,
          normalizedUserSkills = normalized,
          matchedSkills = map skillId matched,
          missingSkills = map skillId missing,
          readinessPercent =
            readiness (requiredSkills role) (length matched) (length (requiredSkills role)),
          weightedReadinessPercent =
            readiness (requiredSkills role) (importanceSum matched)
              (importanceSum (requiredSkills role)),
          missingSkillsByCategory =
            (\<lambda>c. filter (\<lambda>sid. categoryOf vocabulary sid = Some c) (map skillId missing))\<rparr>)"

section \<open>Notions used to state the properties\<close>

text \<open>The compiled form of the expression built for pattern \<open>p\<close>.\<close>

definition wordPattern :: "string \<Rightarrow> Term list" where
  "wordPattern p = WordBoundary # map PatternCharacter p @ [WordBoundary]"

text \<open>The elements of a list outside \<open>A\<close>, each at its first occurrence only.\<close>

fun firstOccurrences :: "'a set \<Rightarrow> 'a list \<Rightarrow> 'a list" where
  "firstOccurrences A [] = []"
| "firstOccurrences A (x # xs) =
     (if x \<in> A then firstOccurrences A xs else x # firstOccurrences (insert x A) xs)"

text \<open>The skill ids of the candidates whose pattern matches, in the order of the candidates.\<close>

definition matchedIds :: "string \<Rightarrow> SkillMatch list \<Rightarrow> string list" where
  "matchedIds text ms = map matchSkillId (filter (\<lambda>m. wholeWordMatch (pattern m) text) ms)"

text \<open>The vocabulary of the specification's scenario (section 8).\<close>

definition jsSkill :: Skill where
  "jsSkill = \<lparr>id' = ''js'', label = ''JavaScript'', aliases = [''ecmascript''], category = language\<rparr>"

definition javaSkill :: Skill where
  "javaSkill = \<lparr>id' = ''java'', label = ''Java'', aliases = [], category = language\<rparr>"

text \<open>
  Pattern \<open>p\<close> occurs in the text as a word of its own: the text is \<open>pre @ w @ post\<close>
  where \<open>w\<close> is \<open>p\<close> up to the case of letters, \<open>pre\<close> does not end in a word character and
  \<open>post\<close> does not begin with one.
\<close>

definition wholeWordOccurs :: "string \<Rightarrow> string \<Rightarrow> bool" where
  "wholeWordOccurs p text =
     (\<exists>pre w post. text = pre @ w @ post \<and> map Canonicalize w = map Canonicalize p
        \<and> (pre = [] \<or> \<not> WordCharacter (last pre)) \<and> (post = [] \<or> \<not> WordCharacter (hd post)))"

text \<open>
  Pattern \<open>p\<close> occurs in the text between word boundaries, for any pattern: the text is
  \<open>pre @ w @ post\<close> where \<open>w\<close> is \<open>p\<close> up to the case of letters, exactly one of the two
  characters around the start of \<open>w\<close> is a word character, and likewise around its end
  (a missing character counts as no word character).
\<close>

definition boundedOccurs :: "string \<Rightarrow> string \<Rightarrow> bool" where
  "boundedOccurs p text =
     (\<exists>pre w post. text = pre @ w @ post \<and> map Canonicalize w = map Canonicalize p
        \<and> ((pre \<noteq> [] \<and> WordCharacter (last pre)) \<noteq> (w @ post \<noteq> [] \<and> WordCharacter (hd (w @ post))))
        \<and> ((pre @ w \<noteq> [] \<and> WordCharacter (last (pre @ w))) \<noteq> (post \<noteq> [] \<and> WordCharacter (hd post))))"

text \<open>
  What the runtime promises of \<^verbatim>\<open>Array.prototype.sort\<close> under the comparator, whatever
  algorithm it runs: the result is a rearrangement of the array, no element stands in
  front of one that the comparator puts before it, and elements that compare equal keep
  their order (the sort is stable).
\<close>

definition stableSortResult :: "SkillMatch list \<Rightarrow> SkillMatch list \<Rightarrow> bool" where
  "stableSortResult ms arranged =
     (mset arranged = mset ms
      \<and> sorted_wrt (\<lambda>a b. compareFn a b \<le> 0) arranged
      \<and> (\<forall>a\<in>set ms. filter (\<lambda>b. compareFn a b = 0) arranged = filter (\<lambda>b. compareFn a b = 0) ms))"

text \<open>
  One invocation of \<^verbatim>\<open>extractSkillsFromText\<close>, as a relation between the arguments and the
  outcome: the candidates are built, the runtime sorts them, and the scan starts from an
  empty output array and an empty \<^verbatim>\<open>seen\<close>, with a new RegExp object for each candidate.
  Nothing else enters.
\<close>

definition invocation :: "string \<Rightarrow> Skill list \<Rightarrow> error + string list \<Rightarrow> bool" where
  "invocation text skills out =
     (\<exists>arranged. stableSortResult (buildSkillMatches skills) arranged
        \<and> out = map_sum (\<lambda>e. e) extractedSkills
                  (scanMatches text arranged \<lparr>extractedSkills = [], seen = {}\<rparr>))"

text \<open>
  The role of the specification's second scenario: one requirement of importance 3 and one
  of importance 1; and a role without requirements.
\<close>

definition scenarioRole :: RoleDefinition where
  "scenarioRole =
     \<lparr>role_id = ''role'', name = ''Role'', description = [], responsibilities = [],
      requiredSkills = [\<lparr>skillId = ''js'', importance = Imp3\<rparr>, \<lparr>skillId = ''java'', importance = Imp1\<rparr>]\<rparr>"

definition emptyRole :: RoleDefinition where
  "emptyRole =
     \<lparr>role_id = ''none'', name = ''None'', description = [], responsibilities = [], requiredSkills = []\<rparr>"

section \<open>Auxiliary facts\<close>

subsection \<open>Characters\<close>

lemma WordCharacter_Canonicalize: "WordCharacter (Canonicalize c) = WordCharacter c"
  by (cases c) (simp add: Canonicalize_def WordCharacter_def codeUnit_def)


lemma toLowerCase_Nil_iff: "toLowerCase s = [] \<longleftrightarrow> s = []"
  by (simp add: toLowerCase_def)

subsection \<open>Escaping and parsing\<close>

lemma escapeClass_SyntaxCharacter: "escapeClass c = SyntaxCharacter c"
  by (auto simp: escapeClass_def SyntaxCharacter_def)

lemma SyntaxCharacter_backslash: "SyntaxCharacter backslash"
  by (simp add: SyntaxCharacter_def)

lemma SyntaxCharacter_not_b: "SyntaxCharacter c \<Longrightarrow> c \<noteq> CHR ''b''"
  by (auto simp: SyntaxCharacter_def backslash_def)

lemma parsePattern_escapeRegExp:
  "parsePattern (escapeRegExp p @ rest) =
     map_sum (\<lambda>e. e) (\<lambda>ts. map PatternCharacter p @ ts) (parsePattern rest)"
proof (induction p)
  case Nil
  show ?case by (cases "parsePattern rest") simp_all
next
  case (Cons c cs)
  show ?case
  proof (cases "SyntaxCharacter c")
    case True
    then show ?thesis
      using Cons SyntaxCharacter_not_b [OF True]
      by (cases "parsePattern rest") (simp_all add: escapeClass_SyntaxCharacter)
  next
    case False
    then have "c \<noteq> backslash" using SyntaxCharacter_backslash by auto
    with False show ?thesis
      using Cons by (cases "parsePattern rest") (simp_all add: escapeClass_SyntaxCharacter)
  qed
qed

lemma parsePattern_boundarySource: "parsePattern (boundarySource p) = Inr (wordPattern p)"
proof -
  have "parsePattern [backslash, CHR ''b''] = Inr [WordBoundary]"
    by simp
  then have "parsePattern (escapeRegExp p @ [backslash, CHR ''b'']) = Inr (map PatternCharacter p @ [WordBoundary])"
    by (simp add: parsePattern_escapeRegExp)
  then show ?thesis
    by (simp add: boundarySource_def wordPattern_def)
qed

lemma newRegExp_boundarySource:
  "newRegExp (boundarySource p) = Inr \<lparr>matcher = wordPattern p, lastIndex = 0\<rparr>"
  by (simp add: newRegExp_def parsePattern_boundarySource)

subsection \<open>Matching\<close>

lemma execFrom_iff:
  "execFrom ts S k \<noteq> None \<longleftrightarrow> (\<exists>i. k \<le> i \<and> i \<le> length S \<and> matchTerms ts S i \<noteq> None)"
proof (induction ts S k rule: execFrom.induct)
  case (1 ts S i)
  show ?case
  proof (cases "length S < i")
    case True
    then show ?thesis by (subst execFrom.simps) auto
  next
    case False
    show ?thesis
    proof (cases "matchTerms ts S i")
      case None
      have "execFrom ts S i = execFrom ts S (i + 1)"
        using False None by (subst execFrom.simps) simp
      moreover have "(\<exists>j. i \<le> j \<and> j \<le> length S \<and> matchTerms ts S j \<noteq> None)
          \<longleftrightarrow> (\<exists>j. i + 1 \<le> j \<and> j \<le> length S \<and> matchTerms ts S j \<noteq> None)"
      proof
        assume "\<exists>j. i \<le> j \<and> j \<le> length S \<and> matchTerms ts S j \<noteq> None"
        then obtain j where j: "i \<le> j" "j \<le> length S" "matchTerms ts S j \<noteq> None" by blast
        with None have "j \<noteq> i" by auto
        with j show "\<exists>j. i + 1 \<le> j \<and> j \<le> length S \<and> matchTerms ts S j \<noteq> None"
          by (intro exI [of _ j]) simp
      next
        assume "\<exists>j. i + 1 \<le> j \<and> j \<le> length S \<and> matchTerms ts S j \<noteq> None"
        then show "\<exists>j. i \<le> j \<and> j \<le> length S \<and> matchTerms ts S j \<noteq> None"
          by (meson add_leD1)
      qed
      ultimately show ?thesis using "1.IH" [OF False None] by simp
    next
      case (Some e)
      then show ?thesis using False by (subst execFrom.simps) auto
    qed
  qed
qed

lemma wholeWordMatch_iff:
  "wholeWordMatch p text \<longleftrightarrow> (\<exists>i\<le>length text. matchTerms (wordPattern p) text i \<noteq> None)"
  using execFrom_iff [of "wordPattern p" "text" 0]
  by (simp add: wholeWordMatch_def newRegExp_boundarySource test_def)

subsection \<open>The scan\<close>

lemma scanMatches_step:
  "scanMatches text (m # ms) st =
     scanMatches text ms
       (if wholeWordMatch (pattern m) text \<and> matchSkillId m \<notin> seen st
        then \<lparr>extractedSkills = extractedSkills st @ [matchSkillId m],
              seen = insert (matchSkillId m) (seen st)\<rparr>
        else st)"
  by (simp add: wholeWordMatch_def newRegExp_boundarySource)

lemma scanMatches_eq:
  "scanMatches text ms st =
     Inr \<lparr>extractedSkills = extractedSkills st @ firstOccurrences (seen st) (matchedIds text ms),
          seen = seen st \<union> set (firstOccurrences (seen st) (matchedIds text ms))\<rparr>"
proof (induction ms arbitrary: st)
  case Nil
  show ?case by (simp add: matchedIds_def)
next
  case (Cons m ms)
  show ?case
    unfolding scanMatches_step Cons.IH
    by (simp add: matchedIds_def)
qed

lemma extractSkillsFromText_eq:
  "extractSkillsFromText text skills =
     Inr (firstOccurrences {} (matchedIds text (sortMatches (buildSkillMatches skills))))"
  by (simp add: extractSkillsFromText_def scanMatches_eq)

lemma set_firstOccurrences: "set (firstOccurrences A xs) = set xs - A"
  by (induction xs arbitrary: A) auto

lemma distinct_firstOccurrences: "distinct (firstOccurrences A xs)"
  by (induction xs arbitrary: A) (auto simp: set_firstOccurrences)

lemma remdups_snoc: "remdups (ys @ [x]) = remdups (filter (\<lambda>y. y \<noteq> x) ys) @ [x]"
  by (induction ys) auto

lemma firstOccurrences_remdups:
  "firstOccurrences A xs = rev (remdups (rev (filter (\<lambda>x. x \<notin> A) xs)))"
proof (induction xs arbitrary: A)
  case Nil
  show ?case by simp
next
  case (Cons x xs)
  show ?case
  proof (cases "x \<in> A")
    case True
    then show ?thesis using Cons by simp
  next
    case False
    have "filter (\<lambda>y. y \<noteq> x) (rev (filter (\<lambda>y. y \<notin> A) xs)) = rev (filter (\<lambda>y. y \<notin> insert x A) xs)"
      by (simp add: rev_filter [symmetric] conj_commute)
    then show ?thesis
      using False Cons by (simp add: remdups_snoc)
  qed
qed

lemma firstOccurrences_single:
  "xs \<noteq> [] \<Longrightarrow> \<forall>x\<in>set xs. x = a \<Longrightarrow> a \<notin> A \<Longrightarrow> firstOccurrences A xs = [a]"
proof (induction xs)
  case Nil
  then show ?case by simp
next
  case (Cons x xs)
  have "firstOccurrences (insert a A) xs = []"
    using Cons.prems(2) by (induction xs) auto
  then show ?case using Cons.prems by simp
qed

subsection \<open>Sorting\<close>

lemma insertMatch_insort:
  "insertMatch a bs = insort_key (\<lambda>m. - int (length (pattern m))) a bs"
  by (induction bs) (auto simp: compareFn_def)

lemma sortMatches_sort_key:
  "sortMatches ms = sort_key (\<lambda>m. - int (length (pattern m))) ms"
proof -
  have "insertMatch = insort_key (\<lambda>m. - int (length (pattern m)))"
    by (intro ext) (rule insertMatch_insort)
  then show ?thesis by (simp add: sortMatches_def sort_key_def)
qed

lemma set_sortMatches: "set (sortMatches ms) = set ms"
  by (simp add: sortMatches_sort_key)

lemma mset_sortMatches: "mset (sortMatches ms) = mset ms"
  by (simp add: sortMatches_sort_key)

lemma sorted_sortMatches:
  "sorted_wrt (\<lambda>a b. length (pattern b) \<le> length (pattern a)) (sortMatches ms)"
proof -
  have "sorted (map (\<lambda>m. - int (length (pattern m))) (sortMatches ms))"
    by (simp add: sortMatches_sort_key)
  then show ?thesis
    by (simp add: sorted_map sorted_wrt_iff_nth_less)
qed

lemma stable_sortMatches:
  "filter (\<lambda>m. length (pattern m) = k) (sortMatches ms) = filter (\<lambda>m. length (pattern m) = k) ms"
proof -
  have "filter (\<lambda>m. - int (length (pattern m)) = - int k) (sort_key (\<lambda>m. - int (length (pattern m))) ms)
      = filter (\<lambda>m. - int (length (pattern m)) = - int k) ms"
    by (rule sort_key_stable)
  then show ?thesis by (simp add: sortMatches_sort_key)
qed

subsection \<open>Whole-word occurrences\<close>

lemma IsWordChar_before: "IsWordChar (pre @ rest) (int (length pre) - 1) = (pre \<noteq> [] \<and> WordCharacter (last pre))"
proof (cases pre rule: rev_cases)
  case Nil
  then show ?thesis by (simp add: IsWordChar_def)
next
  case (snoc ys y)
  then show ?thesis by (simp add: IsWordChar_def nth_append)
qed

lemma IsWordChar_at: "IsWordChar (pre @ rest) (int (length pre)) = (rest \<noteq> [] \<and> WordCharacter (hd rest))"
  by (cases rest) (simp_all add: IsWordChar_def nth_append)

lemma matchTerms_characters:
  "map Canonicalize w = map Canonicalize p \<Longrightarrow>
   matchTerms (map PatternCharacter p @ ts) (pre @ w @ post) (length pre)
     = matchTerms ts (pre @ w @ post) (length pre + length p)"
proof (induction p arbitrary: pre w)
  case Nil
  then show ?case by simp
next
  case (Cons c p)
  then obtain d w' where w: "w = d # w'" and d: "Canonicalize d = Canonicalize c"
    and w': "map Canonicalize w' = map Canonicalize p"
    by (cases w) auto
  have "matchTerms (map PatternCharacter p @ ts) ((pre @ [d]) @ w' @ post) (length (pre @ [d]))
      = matchTerms ts ((pre @ [d]) @ w' @ post) (length (pre @ [d]) + length p)"
    by (rule Cons.IH [OF w'])
  then show ?case using w d by (simp add: nth_append)
qed

lemma Canonicalize_eq_WordCharacter:
  "Canonicalize a = Canonicalize b \<Longrightarrow> WordCharacter a = WordCharacter b"
  by (metis WordCharacter_Canonicalize)

lemma wholeWordOccurs_match:
  assumes occ: "wholeWordOccurs p text"
    and p: "p \<noteq> []" "WordCharacter (hd p)" "WordCharacter (last p)"
  shows "wholeWordMatch p text"
proof -
  from occ obtain pre w post where decomp: "text = pre @ w @ post"
    and w: "map Canonicalize w = map Canonicalize p"
    and before: "pre = [] \<or> \<not> WordCharacter (last pre)"
    and after: "post = [] \<or> \<not> WordCharacter (hd post)"
    unfolding wholeWordOccurs_def by blast
  from w p(1) have wne: "w \<noteq> []" by auto
  have "Canonicalize (hd w) = Canonicalize (hd p)"
    using w wne p(1) by (metis hd_map)
  then have hdw: "WordCharacter (hd w)"
    using p(2) Canonicalize_eq_WordCharacter by blast
  have "Canonicalize (last w) = Canonicalize (last p)"
    using w wne p(1) by (metis last_map)
  then have lastw: "WordCharacter (last w)"
    using p(3) Canonicalize_eq_WordCharacter by blast
  have len: "length w = length p"
    using w by (metis length_map)
  have b1: "IsWordChar text (int (length pre) - 1) \<noteq> IsWordChar text (int (length pre))"
    using before hdw wne unfolding decomp IsWordChar_before IsWordChar_at by auto
  have "IsWordChar ((pre @ w) @ post) (int (length (pre @ w)) - 1)
      \<noteq> IsWordChar ((pre @ w) @ post) (int (length (pre @ w)))"
    using after lastw wne unfolding IsWordChar_before IsWordChar_at by auto
  then have b2: "IsWordChar text (int (length pre + length p) - 1) \<noteq> IsWordChar text (int (length pre + length p))"
    using len by (simp add: decomp)
  have "matchTerms (wordPattern p) text (length pre)
      = matchTerms (map PatternCharacter p @ [WordBoundary]) text (length pre)"
    using b1 by (simp add: wordPattern_def)
  also have "\<dots> = matchTerms [WordBoundary] text (length pre + length p)"
    unfolding decomp by (rule matchTerms_characters [OF w])
  also have "\<dots> = Some (length pre + length p)"
    using b2 by simp
  finally have "matchTerms (wordPattern p) text (length pre) \<noteq> None" by simp
  moreover have "length pre \<le> length text" by (simp add: decomp)
  ultimately show ?thesis unfolding wholeWordMatch_iff by blast
qed

lemma java_not_at_javascript:
  assumes w: "map Canonicalize w = map Canonicalize ''javascript''"
  shows "matchTerms (wordPattern ''java'') (pre @ w @ post) (length pre) = None"
proof -
  have "length (map Canonicalize w) = length (map Canonicalize ''javascript'')"
    by (simp only: w)
  then have len: "length w = 10" by simp
  define w1 where "w1 = take 4 w"
  define w2 where "w2 = drop 4 w"
  have split: "w = w1 @ w2" by (simp add: w1_def w2_def)
  have w1: "map Canonicalize w1 = map Canonicalize ''java''"
    using arg_cong [OF w, of "take 4"] by (simp add: w1_def take_map)
  have w2: "map Canonicalize w2 = map Canonicalize ''script''"
    using arg_cong [OF w, of "drop 4"] by (simp add: w2_def drop_map)
  have w1ne: "w1 \<noteq> []" and w2ne: "w2 \<noteq> []" using w1 w2 by auto
  have "Canonicalize (last w1) = Canonicalize (last ''java'')"
    using w1 w1ne by (metis last_map list.discI)
  then have l1: "WordCharacter (last w1)"
    using Canonicalize_eq_WordCharacter [of "last w1" "CHR ''a''"]
    by (simp add: WordCharacter_def codeUnit_def)
  have "Canonicalize (hd w2) = Canonicalize (hd ''script'')"
    using w2 w2ne by (metis hd_map list.discI)
  then have h2: "WordCharacter (hd w2)"
    using Canonicalize_eq_WordCharacter [of "hd w2" "CHR ''s''"]
    by (simp add: WordCharacter_def codeUnit_def)
  have nb: "IsWordChar ((pre @ w1) @ w2 @ post) (int (length (pre @ w1)) - 1)
      = IsWordChar ((pre @ w1) @ w2 @ post) (int (length (pre @ w1)))"
    using l1 h2 w1ne w2ne unfolding IsWordChar_before IsWordChar_at by auto
  have len1: "length w1 = 4" using len by (simp add: w1_def)
  let ?text = "pre @ w1 @ (w2 @ post)"
  have "matchTerms (map PatternCharacter ''java'' @ [WordBoundary]) ?text (length pre)
      = matchTerms [WordBoundary] ?text (length pre + length ''java'')"
    by (rule matchTerms_characters [OF w1])
  also have "\<dots> = None"
    using nb len1 by (simp add: add.commute)
  finally have "matchTerms (map PatternCharacter ''java'' @ [WordBoundary]) ?text (length pre) = None" .
  then have "matchTerms (wordPattern ''java'') ?text (length pre) = None"
    by (simp add: wordPattern_def)
  then show ?thesis by (simp add: split)
qed

lemma distinct_count_list_one: "distinct xs \<Longrightarrow> x \<in> set xs \<Longrightarrow> count_list xs x = 1"
  by (induction xs) auto

lemma skillEntries_id: "m \<in> set (skillEntries s) \<Longrightarrow> matchSkillId m = id' s"
  by (auto simp: skillEntries_def)

lemma skillEntries_subset: "s \<in> set skills \<Longrightarrow> set (skillEntries s) \<subseteq> set (buildSkillMatches skills)"
  by (auto simp: buildSkillMatches_def)

lemma set_extract:
  "set (firstOccurrences {} (matchedIds text (sortMatches (buildSkillMatches skills))))
     = matchSkillId ` {m \<in> set (buildSkillMatches skills). wholeWordMatch (pattern m) text}"
  by (auto simp: set_firstOccurrences matchedIds_def set_sortMatches)

lemma no_word_character_no_match:
  assumes "\<forall>c\<in>set text. \<not> WordCharacter c"
  shows "\<not> wholeWordMatch p text"
proof -
  have "IsWordChar text e = False" for e
    using assms by (auto simp: IsWordChar_def)
  then have "matchTerms (wordPattern p) text i = None" for i
    by (simp add: wordPattern_def)
  then show ?thesis by (simp add: wholeWordMatch_iff)
qed

lemma no_word_character_extract:
  assumes "\<forall>c\<in>set text. \<not> WordCharacter c"
  shows "extractSkillsFromText text skills = Inr []"
  using no_word_character_no_match [OF assms]
  by (simp add: extractSkillsFromText_eq matchedIds_def)

lemma empty_pattern_match:
  "wholeWordMatch [] text \<longleftrightarrow> (\<exists>c\<in>set text. WordCharacter c)"
proof
  assume "wholeWordMatch [] text"
  then show "\<exists>c\<in>set text. WordCharacter c"
    using no_word_character_no_match [of "text" "[]"] by blast
next
  assume ex: "\<exists>c\<in>set text. WordCharacter c"
  define pre where "pre = takeWhile (\<lambda>c. \<not> WordCharacter c) text"
  define rest where "rest = dropWhile (\<lambda>c. \<not> WordCharacter c) text"
  have decomp: "text = pre @ rest" by (simp add: pre_def rest_def)
  have rest: "rest \<noteq> []" "WordCharacter (hd rest)"
    using ex hd_dropWhile [of "\<lambda>c. \<not> WordCharacter c" "text"] by (auto simp: rest_def)
  have pre: "pre = [] \<or> \<not> WordCharacter (last pre)"
    using set_takeWhileD [of "last pre" "\<lambda>c. \<not> WordCharacter c" "text"] last_in_set [of pre]
    by (auto simp: pre_def)
  have "IsWordChar text (int (length pre) - 1) \<noteq> IsWordChar text (int (length pre))"
    using rest pre unfolding decomp IsWordChar_before IsWordChar_at by auto
  then have "matchTerms (wordPattern []) text (length pre) \<noteq> None"
    by (simp add: wordPattern_def)
  moreover have "length pre \<le> length text" by (simp add: decomp)
  ultimately show "wholeWordMatch [] text" unfolding wholeWordMatch_iff by blast
qed

lemma empty_pattern_entry:
  assumes "toLowerCase (label skill) = [] \<or> toLowerCase (id' skill) = []
      \<or> (\<exists>a\<in>set (aliases skill). toLowerCase a = [])"
  shows "\<lparr>pattern = [], matchSkillId = id' skill\<rparr> \<in> set (skillEntries skill)"
proof -
  consider (l) "toLowerCase (label skill) = []"
    | (i) "toLowerCase (label skill) \<noteq> []" "toLowerCase (id' skill) = []"
    | (a) "\<exists>a\<in>set (aliases skill). toLowerCase a = []"
    using assms by blast
  then show ?thesis
  proof cases
    case l
    then show ?thesis by (simp add: skillEntries_def)
  next
    case i
    then show ?thesis by (simp add: skillEntries_def)
  next
    case a
    then obtain x where "x \<in> set (aliases skill)" "toLowerCase x = []" by blast
    then have "\<lparr>pattern = [], matchSkillId = id' skill\<rparr>
        \<in> (\<lambda>alias. \<lparr>pattern = toLowerCase alias, matchSkillId = id' skill\<rparr>) ` set (aliases skill)"
      by (metis (mono_tags, lifting) image_eqI)
    then show ?thesis by (simp add: skillEntries_def)
  qed
qed

lemma matching_entry_in_output:
  assumes "s \<in> set skills" and "p \<in> pattern ` set (skillEntries s)" and "wholeWordMatch p text"
  shows "id' s \<in> set (firstOccurrences {} (matchedIds text (sortMatches (buildSkillMatches skills))))"
proof -
  from assms(2) obtain m where m: "m \<in> set (skillEntries s)" "pattern m = p" by auto
  then have "m \<in> set (buildSkillMatches skills)" "matchSkillId m = id' s"
    using skillEntries_subset [OF assms(1)] skillEntries_id by auto
  with m(2) assms(3) have "id' s \<in> matchSkillId ` {m \<in> set (buildSkillMatches skills). wholeWordMatch (pattern m) text}"
    by force
  then show ?thesis by (simp only: set_extract)
qed

lemma javascript_word: "''javascript'' \<noteq> [] \<and> WordCharacter (hd ''javascript'') \<and> WordCharacter (last ''javascript'')"
  by (simp add: WordCharacter_def codeUnit_def)

lemma java_word: "''java'' \<noteq> [] \<and> WordCharacter (hd ''java'') \<and> WordCharacter (last ''java'')"
  by (simp add: WordCharacter_def codeUnit_def)

subsection \<open>The runtime's sort\<close>

lemma compareFn_zero_iff: "compareFn a b = 0 \<longleftrightarrow> length (pattern a) = length (pattern b)"
  by (auto simp: compareFn_def)

lemma compareFn_le_iff: "compareFn a b \<le> 0 \<longleftrightarrow> length (pattern b) \<le> length (pattern a)"
  by (auto simp: compareFn_def)

lemma stableSortResult_unique:
  assumes "stableSortResult ms arranged"
  shows "arranged = sortMatches ms"
proof -
  let ?f = "\<lambda>m. - int (length (pattern m))"
  have m: "mset arranged = mset ms"
    using assms by (simp add: stableSortResult_def)
  then have sets: "set arranged = set ms"
    by (rule mset_eq_setD)
  have stable: "filter (\<lambda>b. length (pattern k) = length (pattern b)) arranged
      = filter (\<lambda>b. length (pattern k) = length (pattern b)) ms" if "k \<in> set ms" for k
    using assms that by (simp add: stableSortResult_def compareFn_zero_iff)
  have ordered: "sorted_wrt (\<lambda>a b. length (pattern b) \<le> length (pattern a)) arranged"
    using assms by (simp add: stableSortResult_def compareFn_le_iff)
  have "sort_key ?f ms = arranged"
  proof (rule properties_for_sort_key)
    show "mset arranged = mset ms" by (rule m)
    show "filter (\<lambda>x. ?f k = ?f x) arranged = filter (\<lambda>x. ?f k = ?f x) ms" if "k \<in> set arranged" for k
      using stable [of k] that sets by simp
    show "sorted (map ?f arranged)"
      using ordered by (simp add: sorted_map)
  qed
  then show ?thesis by (simp add: sortMatches_sort_key)
qed

lemma stableSortResult_sortMatches: "stableSortResult ms (sortMatches ms)"
proof -
  have "sorted_wrt (\<lambda>a b. compareFn a b \<le> 0) (sortMatches ms)"
    using sorted_sortMatches [of ms] by (simp add: compareFn_le_iff)
  moreover have "filter (\<lambda>b. compareFn a b = 0) (sortMatches ms) = filter (\<lambda>b. compareFn a b = 0) ms" for a
  proof -
    have "(\<lambda>b. compareFn a b = 0) = (\<lambda>b. length (pattern b) = length (pattern a))"
      by (auto simp: compareFn_zero_iff)
    then show ?thesis
      using stable_sortMatches [of "length (pattern a)" ms] by simp
  qed
  ultimately show ?thesis
    by (simp add: stableSortResult_def mset_sortMatches)
qed

subsection \<open>Trimming\<close>

lemma trim_Nil_iff: "trim s = [] \<longleftrightarrow> (\<forall>c\<in>set s. WhiteSpace c)"
proof
  assume "trim s = []"
  then have all: "\<forall>c\<in>set (dropWhile WhiteSpace s). WhiteSpace c"
    by (simp add: trim_def trimStart_def dropWhile_eq_Nil_conv)
  have "dropWhile WhiteSpace s = []"
  proof (rule ccontr)
    assume ne: "dropWhile WhiteSpace s \<noteq> []"
    then have "\<not> WhiteSpace (hd (dropWhile WhiteSpace s))"
      by (rule hd_dropWhile)
    moreover have "hd (dropWhile WhiteSpace s) \<in> set (dropWhile WhiteSpace s)"
      using ne by simp
    ultimately show False using all by blast
  qed
  then show "\<forall>c\<in>set s. WhiteSpace c"
    by (simp add: dropWhile_eq_Nil_conv)
next
  assume "\<forall>c\<in>set s. WhiteSpace c"
  then have "dropWhile WhiteSpace s = []"
    by (simp add: dropWhile_eq_Nil_conv)
  then show "trim s = []"
    by (auto simp: trim_def trimStart_def dest: set_dropWhileD)
qed

subsection \<open>Importance\<close>

lemma importanceValue_range: "1 \<le> importanceValue i \<and> importanceValue i \<le> 3"
  by (cases i) simp_all

lemma importanceSum_pos: "rs \<noteq> [] \<Longrightarrow> 0 < importanceSum rs"
proof (cases rs)
  case Nil
  then show "rs \<noteq> [] \<Longrightarrow> 0 < importanceSum rs" by simp
next
  case (Cons r rs')
  have "0 < importanceValue (importance r)"
    using importanceValue_range [of "importance r"] by simp
  then show "0 < importanceSum rs" by (simp add: Cons importanceSum_def)
qed

subsection \<open>Occurrences and matches\<close>

lemma matchTerms_characters_conv:
  "matchTerms (map PatternCharacter p @ ts) S i = Some e \<Longrightarrow> i \<le> length S \<Longrightarrow>
     i + length p \<le> length S
     \<and> map Canonicalize (take (length p) (drop i S)) = map Canonicalize p
     \<and> matchTerms ts S (i + length p) = Some e"
proof (induction p arbitrary: i)
  case Nil
  then show ?case by simp
next
  case (Cons c p)
  from Cons.prems have lt: "i < length S" and c: "Canonicalize (S ! i) = Canonicalize c"
    and rest: "matchTerms (map PatternCharacter p @ ts) S (Suc i) = Some e"
    by (auto split: if_splits)
  from lt have "Suc i \<le> length S" by simp
  from Cons.IH [OF rest this] have ih: "Suc i + length p \<le> length S"
    "map Canonicalize (take (length p) (drop (Suc i) S)) = map Canonicalize p"
    "matchTerms ts S (Suc i + length p) = Some e"
    by auto
  have "drop i S = S ! i # drop (Suc i) S"
    using lt by (simp add: Cons_nth_drop_Suc)
  then have "take (length (c # p)) (drop i S) = S ! i # take (length p) (drop (Suc i) S)"
    by simp
  then show ?case using ih c by simp
qed

lemma matchTerms_wordPattern_at:
  assumes w: "map Canonicalize w = map Canonicalize p"
  shows "matchTerms (wordPattern p) (pre @ w @ post) (length pre) \<noteq> None \<longleftrightarrow>
     ((pre \<noteq> [] \<and> WordCharacter (last pre)) \<noteq> (w @ post \<noteq> [] \<and> WordCharacter (hd (w @ post))))
     \<and> ((pre @ w \<noteq> [] \<and> WordCharacter (last (pre @ w))) \<noteq> (post \<noteq> [] \<and> WordCharacter (hd post)))"
proof -
  let ?S = "pre @ w @ post"
  have len: "length w = length p" using w by (metis length_map)
  have b1: "(IsWordChar ?S (int (length pre) - 1) \<noteq> IsWordChar ?S (int (length pre)))
      = ((pre \<noteq> [] \<and> WordCharacter (last pre)) \<noteq> (w @ post \<noteq> [] \<and> WordCharacter (hd (w @ post))))"
    by (simp only: IsWordChar_before IsWordChar_at)
  have "(IsWordChar ((pre @ w) @ post) (int (length (pre @ w)) - 1) \<noteq> IsWordChar ((pre @ w) @ post) (int (length (pre @ w))))
      = ((pre @ w \<noteq> [] \<and> WordCharacter (last (pre @ w))) \<noteq> (post \<noteq> [] \<and> WordCharacter (hd post)))"
    by (simp only: IsWordChar_before IsWordChar_at)
  then have b2: "(IsWordChar ?S (int (length pre + length p) - 1) \<noteq> IsWordChar ?S (int (length pre + length p)))
      = ((pre @ w \<noteq> [] \<and> WordCharacter (last (pre @ w))) \<noteq> (post \<noteq> [] \<and> WordCharacter (hd post)))"
    using len by simp
  have chars: "matchTerms (map PatternCharacter p @ [WordBoundary]) ?S (length pre)
      = matchTerms [WordBoundary] ?S (length pre + length p)"
    by (rule matchTerms_characters [OF w])
  show ?thesis
  proof (cases "IsWordChar ?S (int (length pre) - 1) \<noteq> IsWordChar ?S (int (length pre))")
    case True
    then have "matchTerms (wordPattern p) ?S (length pre) = matchTerms [WordBoundary] ?S (length pre + length p)"
      using chars by (simp add: wordPattern_def)
    then show ?thesis
      using True b1 b2 by (cases "IsWordChar ?S (int (length pre + length p) - 1) \<noteq> IsWordChar ?S (int (length pre + length p))") auto
  next
    case False
    then have "matchTerms (wordPattern p) ?S (length pre) = None"
      by (simp add: wordPattern_def)
    then show ?thesis using False b1 by auto
  qed
qed

lemma wholeWordMatch_boundedOccurs: "wholeWordMatch p text \<longleftrightarrow> boundedOccurs p text"
proof
  assume "wholeWordMatch p text"
  then obtain i where i: "i \<le> length text" and m: "matchTerms (wordPattern p) text i \<noteq> None"
    unfolding wholeWordMatch_iff by blast
  then obtain e where e: "matchTerms (map PatternCharacter p @ [WordBoundary]) text i = Some e"
    by (auto simp: wordPattern_def split: if_splits)
  from matchTerms_characters_conv [OF e i]
  have le: "i + length p \<le> length text"
    and c: "map Canonicalize (take (length p) (drop i text)) = map Canonicalize p"
    by auto
  define pre where "pre = take i text"
  define w where "w = take (length p) (drop i text)"
  define post where "post = drop (length p) (drop i text)"
  have decomp: "text = pre @ w @ post"
    unfolding pre_def w_def post_def by (metis append_take_drop_id)
  have lpre: "length pre = i" using i by (simp add: pre_def)
  have w: "map Canonicalize w = map Canonicalize p" using c by (simp add: w_def)
  from m have "matchTerms (wordPattern p) (pre @ w @ post) (length pre) \<noteq> None"
    by (simp add: decomp [symmetric] lpre)
  then show "boundedOccurs p text"
    unfolding boundedOccurs_def matchTerms_wordPattern_at [OF w]
    using decomp w by blast
next
  assume "boundedOccurs p text"
  then obtain pre w post where decomp: "text = pre @ w @ post"
    and w: "map Canonicalize w = map Canonicalize p"
    and b: "(pre \<noteq> [] \<and> WordCharacter (last pre)) \<noteq> (w @ post \<noteq> [] \<and> WordCharacter (hd (w @ post)))"
      "(pre @ w \<noteq> [] \<and> WordCharacter (last (pre @ w))) \<noteq> (post \<noteq> [] \<and> WordCharacter (hd post))"
    unfolding boundedOccurs_def by blast
  have "matchTerms (wordPattern p) (pre @ w @ post) (length pre) \<noteq> None"
    unfolding matchTerms_wordPattern_at [OF w] using b by blast
  moreover have "length pre \<le> length text" by (simp add: decomp)
  ultimately show "wholeWordMatch p text"
    unfolding wholeWordMatch_iff decomp by blast
qed

lemma boundedOccurs_word:
  assumes p: "p \<noteq> []" "WordCharacter (hd p)" "WordCharacter (last p)"
  shows "boundedOccurs p text \<longleftrightarrow> wholeWordOccurs p text"
proof -
  have inner: "((pre \<noteq> [] \<and> WordCharacter (last pre)) \<noteq> (w @ post \<noteq> [] \<and> WordCharacter (hd (w @ post)))
        \<and> ((pre @ w \<noteq> [] \<and> WordCharacter (last (pre @ w))) \<noteq> (post \<noteq> [] \<and> WordCharacter (hd post))))
      = ((pre = [] \<or> \<not> WordCharacter (last pre)) \<and> (post = [] \<or> \<not> WordCharacter (hd post)))"
    if w: "map Canonicalize w = map Canonicalize p" for pre w post
  proof -
    from w p(1) have wne: "w \<noteq> []" by auto
    have "Canonicalize (hd w) = Canonicalize (hd p)"
      using w wne p(1) by (metis hd_map)
    then have hdw: "WordCharacter (hd w)"
      using p(2) Canonicalize_eq_WordCharacter by blast
    have "Canonicalize (last w) = Canonicalize (last p)"
      using w wne p(1) by (metis last_map)
    then have lastw: "WordCharacter (last w)"
      using p(3) Canonicalize_eq_WordCharacter by blast
    have "(w @ post \<noteq> [] \<and> WordCharacter (hd (w @ post))) = True"
      using wne hdw by simp
    moreover have "(pre @ w \<noteq> [] \<and> WordCharacter (last (pre @ w))) = True"
      using wne lastw by simp
    ultimately show ?thesis by (simp only: simp_thms de_Morgan_conj)
  qed
  show ?thesis
  proof
    assume "boundedOccurs p text"
    then obtain pre w post where d: "text = pre @ w @ post" "map Canonicalize w = map Canonicalize p"
      and b: "((pre \<noteq> [] \<and> WordCharacter (last pre)) \<noteq> (w @ post \<noteq> [] \<and> WordCharacter (hd (w @ post)))
        \<and> ((pre @ w \<noteq> [] \<and> WordCharacter (last (pre @ w))) \<noteq> (post \<noteq> [] \<and> WordCharacter (hd post))))"
      unfolding boundedOccurs_def by blast
    from b have "(pre = [] \<or> \<not> WordCharacter (last pre)) \<and> (post = [] \<or> \<not> WordCharacter (hd post))"
      by (simp only: inner [OF d(2)])
    with d show "wholeWordOccurs p text"
      unfolding wholeWordOccurs_def by (intro exI [of _ pre] exI [of _ w] exI [of _ post]) simp
  next
    assume "wholeWordOccurs p text"
    then obtain pre w post where d: "text = pre @ w @ post" "map Canonicalize w = map Canonicalize p"
      and b: "(pre = [] \<or> \<not> WordCharacter (last pre)) \<and> (post = [] \<or> \<not> WordCharacter (hd post))"
      unfolding wholeWordOccurs_def by blast
    from b have "((pre \<noteq> [] \<and> WordCharacter (last pre)) \<noteq> (w @ post \<noteq> [] \<and> WordCharacter (hd (w @ post)))
        \<and> ((pre @ w \<noteq> [] \<and> WordCharacter (last (pre @ w))) \<noteq> (post \<noteq> [] \<and> WordCharacter (hd post))))"
      by (simp only: inner [OF d(2)])
    with d show "boundedOccurs p text"
      unfolding boundedOccurs_def by (intro exI [of _ pre] exI [of _ w] exI [of _ post]) simp
  qed
qed

lemma set_extract_occurs:
  "set (firstOccurrences {} (matchedIds text (sortMatches (buildSkillMatches skills))))
     = matchSkillId ` {m \<in> set (buildSkillMatches skills). boundedOccurs (pattern m) text}"
  by (simp add: set_extract wholeWordMatch_boundedOccurs)

lemma single_id_output:
  assumes some: "\<exists>m\<in>set (buildSkillMatches skills). matchSkillId m = a \<and> boundedOccurs (pattern m) text"
    and others: "\<forall>m\<in>set (buildSkillMatches skills). boundedOccurs (pattern m) text \<longrightarrow> matchSkillId m = a"
  shows "firstOccurrences {} (matchedIds text (sortMatches (buildSkillMatches skills))) = [a]"
proof -
  have "a \<in> set (firstOccurrences {} (matchedIds text (sortMatches (buildSkillMatches skills))))"
    unfolding set_extract_occurs using some by force
  then have ne: "matchedIds text (sortMatches (buildSkillMatches skills)) \<noteq> []"
    by auto
  have "\<forall>x\<in>set (matchedIds text (sortMatches (buildSkillMatches skills))). x = a"
    using others by (auto simp: matchedIds_def set_sortMatches wholeWordMatch_boundedOccurs)
  then show ?thesis
    using ne by (intro firstOccurrences_single) auto
qed

lemma scenario_entries:
  "buildSkillMatches [jsSkill, javaSkill]
     = [\<lparr>pattern = ''javascript'', matchSkillId = ''js''\<rparr>, \<lparr>pattern = ''js'', matchSkillId = ''js''\<rparr>,
        \<lparr>pattern = ''ecmascript'', matchSkillId = ''js''\<rparr>, \<lparr>pattern = ''java'', matchSkillId = ''java''\<rparr>]"
  by (simp add: buildSkillMatches_def skillEntries_def jsSkill_def javaSkill_def toLowerCase_def
      toLowerCaseUnit_def codeUnit_def)

lemma scenario_java_only:
  assumes "wholeWordOccurs ''java'' text" and "\<not> wholeWordOccurs ''javascript'' text"
    and "\<not> wholeWordOccurs ''ecmascript'' text" and "\<not> wholeWordOccurs ''js'' text"
  shows "extractSkillsFromText text [jsSkill, javaSkill] = Inr [''java'']"
proof -
  have wl: "boundedOccurs ''java'' text = wholeWordOccurs ''java'' text"
    "boundedOccurs ''javascript'' text = wholeWordOccurs ''javascript'' text"
    "boundedOccurs ''ecmascript'' text = wholeWordOccurs ''ecmascript'' text"
    "boundedOccurs ''js'' text = wholeWordOccurs ''js'' text"
    by (simp_all add: boundedOccurs_word WordCharacter_def codeUnit_def)
  have "firstOccurrences {} (matchedIds text (sortMatches (buildSkillMatches [jsSkill, javaSkill]))) = [''java'']"
    by (rule single_id_output) (use assms wl in \<open>simp_all add: scenario_entries\<close>)
  then show ?thesis by (simp add: extractSkillsFromText_eq)
qed

subsection \<open>The engine's bound\<close>











lemmas eval_simps =
  extractSkillsFromText_def buildSkillMatches_def skillEntries_def sortMatches_def compareFn_def
  toLowerCase_def toLowerCaseUnit_def codeUnit_def newRegExp_def boundarySource_def
  escapeClass_def backslash_def SyntaxCharacter_def test_def IsWordChar_def WordCharacter_def
  Canonicalize_def execFrom.simps wholeWordMatch_def jsSkill_def javaSkill_def

section \<open>Properties of the extractor\<close>

text \<open>
  C4. For every text and every vocabulary (with unique ids or not) the extractor returns
  a list without repetition. A candidate whose skill id is already in \<^verbatim>\<open>seen\<close> leaves
  the state as it is and the scan goes on with the candidates behind it, so that the
  ids returned are exactly the ids of the candidates whose pattern matches.
\<close>

theorem extract_no_duplicate_ids:
  "(\<exists>ids. extractSkillsFromText text skills = Inr ids \<and> distinct ids
      \<and> set ids = matchSkillId ` {m \<in> set (buildSkillMatches skills). wholeWordMatch (pattern m) text})
   \<and> (matchSkillId m \<in> seen st \<longrightarrow> scanMatches text (m # ms) st = scanMatches text ms st)"
proof
  show "\<exists>ids. extractSkillsFromText text skills = Inr ids \<and> distinct ids
      \<and> set ids = matchSkillId ` {m \<in> set (buildSkillMatches skills). wholeWordMatch (pattern m) text}"
    by (auto simp: extractSkillsFromText_eq distinct_firstOccurrences set_firstOccurrences
        matchedIds_def set_sortMatches)
  show "matchSkillId m \<in> seen st \<longrightarrow> scanMatches text (m # ms) st = scanMatches text ms st"
    by (simp only: scanMatches_step) simp
qed

theorem extract_no_duplicate_ids_witness:
  "''java'' \<in> seen \<lparr>extractedSkills = [''java''], seen = {''java''}\<rparr>
   \<and> scanMatches ''Java, java and JAVA''
         [\<lparr>pattern = ''java'', matchSkillId = ''java''\<rparr>, \<lparr>pattern = ''js'', matchSkillId = ''js''\<rparr>]
         \<lparr>extractedSkills = [''java''], seen = {''java''}\<rparr>
       = scanMatches ''Java, java and JAVA'' [\<lparr>pattern = ''js'', matchSkillId = ''js''\<rparr>]
         \<lparr>extractedSkills = [''java''], seen = {''java''}\<rparr>
   \<and> (\<exists>ids. extractSkillsFromText ''Java, java and JAVA'' [javaSkill, jsSkill] = Inr ids \<and> distinct ids)"
  using extract_no_duplicate_ids [of "''Java, java and JAVA''" "[javaSkill, jsSkill]"
      "\<lparr>pattern = ''java'', matchSkillId = ''java''\<rparr>"
      "\<lparr>extractedSkills = [''java''], seen = {''java''}\<rparr>"
      "[\<lparr>pattern = ''js'', matchSkillId = ''js''\<rparr>]"]
  by auto




text \<open>
  C1 (as the code has it). The extractor has no test for an empty pattern. For the empty
  pattern it builds the expression \<^verbatim>\<open>\b\b\<close>, which matches exactly the texts that
  contain a word character. So, for a vocabulary with an entry whose label, id or alias
  lower-cases to the empty string: when the text contains a word character, the id of
  that entry is in the output; when the text contains none, the output is empty.
\<close>

theorem empty_pattern_matches_word_text:
  assumes "skill \<in> set skills"
    and "toLowerCase (label skill) = [] \<or> toLowerCase (id' skill) = []
      \<or> (\<exists>a\<in>set (aliases skill). toLowerCase a = [])"
  shows "wholeWordMatch [] text = (\<exists>c\<in>set text. WordCharacter c)
    \<and> (\<exists>ids. extractSkillsFromText text skills = Inr ids
          \<and> ((\<exists>c\<in>set text. WordCharacter c) \<longrightarrow> id' skill \<in> set ids)
          \<and> ((\<forall>c\<in>set text. \<not> WordCharacter c) \<longrightarrow> ids = []))"
proof -
  let ?m = "\<lparr>pattern = [], matchSkillId = id' skill\<rparr>"
  have m: "?m \<in> set (buildSkillMatches skills)"
    using empty_pattern_entry [OF assms(2)] skillEntries_subset [OF assms(1)] by blast
  have "id' skill \<in> set (firstOccurrences {} (matchedIds text (sortMatches (buildSkillMatches skills))))"
    if "\<exists>c\<in>set text. WordCharacter c"
  proof -
    have "wholeWordMatch (pattern ?m) text" using that by (simp add: empty_pattern_match)
    with m have "matchSkillId ?m \<in> matchSkillId ` {m \<in> set (buildSkillMatches skills). wholeWordMatch (pattern m) text}"
      by blast
    then show ?thesis unfolding set_extract by simp
  qed
  moreover have "firstOccurrences {} (matchedIds text (sortMatches (buildSkillMatches skills))) = []"
    if "\<forall>c\<in>set text. \<not> WordCharacter c"
    using no_word_character_extract [OF that, of skills] by (simp add: extractSkillsFromText_eq)
  ultimately show ?thesis
    by (simp add: empty_pattern_match extractSkillsFromText_eq)
qed

text \<open>
  C1 as stated fails: with an empty alias the id \<open>python\<close> is returned for a text in
  which \<open>python\<close> does not occur; without the empty alias nothing is returned.
\<close>

theorem empty_pattern_not_skipped:
  "extractSkillsFromText ''hello world''
      [\<lparr>id' = ''python'', label = ''Python'', aliases = [''''], category = language\<rparr>] = Inr [''python'']
   \<and> \<not> wholeWordMatch ''python'' ''hello world''
   \<and> extractSkillsFromText ''hello world''
      [\<lparr>id' = ''python'', label = ''Python'', aliases = [], category = language\<rparr>] = Inr []"
  by (simp add: eval_simps)

theorem empty_pattern_matches_word_text_witness:
  "(\<exists>c\<in>set ''hello world''. WordCharacter c)
   \<and> wholeWordMatch [] ''hello world''
   \<and> extractSkillsFromText ''hello world''
      [\<lparr>id' = ''python'', label = ''Python'', aliases = [''''], category = language\<rparr>] = Inr [''python'']
   \<and> extractSkillsFromText ''... !?''
      [\<lparr>id' = ''python'', label = ''Python'', aliases = [''''], category = language\<rparr>] = Inr []"
proof -
  let ?s = "\<lparr>id' = ''python'', label = ''Python'', aliases = [''''], category = language\<rparr>"
  have a: "?s \<in> set [?s]" by simp
  have b: "toLowerCase (label ?s) = [] \<or> toLowerCase (id' ?s) = []
      \<or> (\<exists>a\<in>set (aliases ?s). toLowerCase a = [])"
    by (simp add: toLowerCase_def)
  have w1: "\<exists>c\<in>set ''hello world''. WordCharacter c"
    by (simp add: WordCharacter_def codeUnit_def)
  have w2: "\<forall>c\<in>set ''... !?''. \<not> WordCharacter c"
    by (simp add: WordCharacter_def codeUnit_def)
  from empty_pattern_matches_word_text [OF a b, of "''hello world''"] w1
  obtain ids where m: "wholeWordMatch [] ''hello world''"
    and ids: "extractSkillsFromText ''hello world'' [?s] = Inr ids" "id' ?s \<in> set ids"
    by blast
  have "extractSkillsFromText ''hello world'' [?s] = Inr [''python'']"
    by (simp add: eval_simps)
  with ids have e1: "extractSkillsFromText ''hello world'' [?s] = Inr [''python'']"
    by simp
  from empty_pattern_matches_word_text [OF a b, of "''... !?''"] w2
  have "extractSkillsFromText ''... !?'' [?s] = Inr []" by blast
  with w1 m e1 show ?thesis by blast
qed

text \<open>
  C2. Let the vocabulary contain a skill with the pattern \<open>javascript\<close> and a skill with
  the pattern \<open>java\<close>. When the text contains both as words of their own (in any case of
  letters), each of the two ids is in the output exactly once. The expression for
  \<open>java\<close> does not match at an occurrence of \<open>JavaScript\<close>, whatever stands around it. The
  ids in the output are exactly the ids of the candidates whose pattern occurs in the text
  between word boundaries, which for \<open>java\<close> and \<open>javascript\<close> is an occurrence as a
  word of its own; so an id is never returned for a pattern of another id. When the text
  contains \<open>Java\<close> as a word of its own and no pattern of another id occurs in it, the
  output is the Java id alone; for the scenario's vocabulary that is every text with
  \<open>Java\<close> and without \<open>JavaScript\<close>, \<open>ECMAScript\<close> and \<open>JS\<close> as words.
\<close>

theorem javascript_and_java:
  assumes "sjs \<in> set skills" and "''javascript'' \<in> pattern ` set (skillEntries sjs)"
    and "sjava \<in> set skills" and "''java'' \<in> pattern ` set (skillEntries sjava)"
  shows "\<exists>ids. extractSkillsFromText text skills = Inr ids
    \<and> (wholeWordOccurs ''javascript'' text \<and> wholeWordOccurs ''java'' text
          \<longrightarrow> count_list ids (id' sjs) = 1 \<and> count_list ids (id' sjava) = 1)
    \<and> (map Canonicalize w = map Canonicalize ''javascript''
          \<longrightarrow> matchTerms (wordPattern ''java'') (pre @ w @ post) (length pre) = None)
    \<and> set ids = matchSkillId ` {m \<in> set (buildSkillMatches skills). boundedOccurs (pattern m) text}
    \<and> boundedOccurs ''java'' text = wholeWordOccurs ''java'' text
    \<and> boundedOccurs ''javascript'' text = wholeWordOccurs ''javascript'' text
    \<and> (wholeWordOccurs ''java'' text
         \<and> (\<forall>m\<in>set (buildSkillMatches skills). matchSkillId m \<noteq> id' sjava \<longrightarrow> \<not> boundedOccurs (pattern m) text)
          \<longrightarrow> ids = [id' sjava])
    \<and> (wholeWordOccurs ''java'' text \<and> \<not> wholeWordOccurs ''javascript'' text
         \<and> \<not> wholeWordOccurs ''ecmascript'' text \<and> \<not> wholeWordOccurs ''js'' text
          \<longrightarrow> extractSkillsFromText text [jsSkill, javaSkill] = Inr [''java''])"
proof -
  let ?ids = "firstOccurrences {} (matchedIds text (sortMatches (buildSkillMatches skills)))"
  have words: "boundedOccurs ''java'' text = wholeWordOccurs ''java'' text"
    "boundedOccurs ''javascript'' text = wholeWordOccurs ''javascript'' text"
    using boundedOccurs_word java_word javascript_word by blast+
  have both: "count_list ?ids (id' sjs) = 1 \<and> count_list ?ids (id' sjava) = 1"
    if "wholeWordOccurs ''javascript'' text" "wholeWordOccurs ''java'' text"
  proof -
    have "wholeWordMatch ''javascript'' text" "wholeWordMatch ''java'' text"
      using that wholeWordOccurs_match javascript_word java_word by blast+
    then have "id' sjs \<in> set ?ids" "id' sjava \<in> set ?ids"
      using matching_entry_in_output assms by blast+
    then show ?thesis
      by (simp add: distinct_count_list_one distinct_firstOccurrences)
  qed
  have only: "?ids = [id' sjava]"
    if occ: "wholeWordOccurs ''java'' text"
      and others: "\<forall>m\<in>set (buildSkillMatches skills). matchSkillId m \<noteq> id' sjava \<longrightarrow> \<not> boundedOccurs (pattern m) text"
  proof (rule single_id_output)
    from assms(4) obtain m where m: "m \<in> set (skillEntries sjava)" "pattern m = ''java''" by auto
    then have "m \<in> set (buildSkillMatches skills)" "matchSkillId m = id' sjava"
      using skillEntries_subset [OF assms(3)] skillEntries_id by auto
    moreover have "boundedOccurs (pattern m) text"
      using occ words(1) m(2) by simp
    ultimately show "\<exists>m\<in>set (buildSkillMatches skills). matchSkillId m = id' sjava \<and> boundedOccurs (pattern m) text"
      by blast
    show "\<forall>m\<in>set (buildSkillMatches skills). boundedOccurs (pattern m) text \<longrightarrow> matchSkillId m = id' sjava"
      using others by blast
  qed
  have scenario: "extractSkillsFromText text [jsSkill, javaSkill] = Inr [''java'']"
    if "wholeWordOccurs ''java'' text" "\<not> wholeWordOccurs ''javascript'' text"
      "\<not> wholeWordOccurs ''ecmascript'' text" "\<not> wholeWordOccurs ''js'' text"
    using that by (rule scenario_java_only)
  show ?thesis
    using both only scenario words set_extract_occurs [of "text" skills] java_not_at_javascript [of w pre post]
    by (simp add: extractSkillsFromText_eq)
qed

theorem javascript_and_java_witness:
  "extractSkillsFromText ''Proficient in Java and JavaScript development.'' [jsSkill, javaSkill]
      = Inr [''js'', ''java'']
   \<and> count_list [''js'', ''java''] ''js'' = 1 \<and> count_list [''js'', ''java''] ''java'' = 1
   \<and> matchTerms (wordPattern ''java'') (''I know '' @ ''JavaScript'' @ '' well'') (length ''I know '') = None
   \<and> extractSkillsFromText ''I know JavaScript well'' [jsSkill, javaSkill] = Inr [''js'']
   \<and> wholeWordOccurs ''java'' ''I know Java''
   \<and> \<not> wholeWordOccurs ''javascript'' ''I know Java''
   \<and> extractSkillsFromText ''I know Java'' [jsSkill, javaSkill] = Inr [''java'']"
proof -
  have h: "jsSkill \<in> set [jsSkill, javaSkill]" "''javascript'' \<in> pattern ` set (skillEntries jsSkill)"
    "javaSkill \<in> set [jsSkill, javaSkill]" "''java'' \<in> pattern ` set (skillEntries javaSkill)"
    by (simp_all add: jsSkill_def javaSkill_def skillEntries_def toLowerCase_def toLowerCaseUnit_def codeUnit_def)
  have o1: "wholeWordOccurs ''javascript'' ''Proficient in Java and JavaScript development.''"
    unfolding wholeWordOccurs_def
    by (intro exI [of _ "''Proficient in Java and ''"] exI [of _ "''JavaScript''"] exI [of _ "'' development.''"])
      (simp add: Canonicalize_def WordCharacter_def codeUnit_def)
  have o2: "wholeWordOccurs ''java'' ''Proficient in Java and JavaScript development.''"
    unfolding wholeWordOccurs_def
    by (intro exI [of _ "''Proficient in ''"] exI [of _ "''Java''"] exI [of _ "'' and JavaScript development.''"])
      (simp add: Canonicalize_def WordCharacter_def codeUnit_def)
  have o3: "wholeWordOccurs ''java'' ''I know Java''"
    unfolding wholeWordOccurs_def
    by (intro exI [of _ "''I know ''"] exI [of _ "''Java''"] exI [of _ "[]"])
      (simp add: Canonicalize_def WordCharacter_def codeUnit_def)
  have c: "map Canonicalize ''JavaScript'' = map Canonicalize ''javascript''"
    by (simp add: Canonicalize_def codeUnit_def)
  have n2: "\<forall>m\<in>set (buildSkillMatches [jsSkill, javaSkill]).
      matchSkillId m \<noteq> id' javaSkill \<longrightarrow> \<not> boundedOccurs (pattern m) ''I know Java''"
    unfolding wholeWordMatch_boundedOccurs [symmetric] by (simp add: eval_simps)
  have "\<not> wholeWordMatch ''javascript'' ''I know Java''" "\<not> wholeWordMatch ''ecmascript'' ''I know Java''"
    "\<not> wholeWordMatch ''js'' ''I know Java''"
    by (simp_all add: eval_simps)
  then have "\<not> boundedOccurs ''javascript'' ''I know Java''" "\<not> boundedOccurs ''ecmascript'' ''I know Java''"
    "\<not> boundedOccurs ''js'' ''I know Java''"
    by (simp_all only: wholeWordMatch_boundedOccurs not_False_eq_True)
  then have n3: "\<not> wholeWordOccurs ''javascript'' ''I know Java''" "\<not> wholeWordOccurs ''ecmascript'' ''I know Java''"
    "\<not> wholeWordOccurs ''js'' ''I know Java''"
    by (simp_all add: boundedOccurs_word [symmetric] WordCharacter_def codeUnit_def)
  from javascript_and_java [OF h, of "''Proficient in Java and JavaScript development.''" "''JavaScript''" "''I know ''" "'' well''"] o1 o2 c
  have r1: "\<exists>ids. extractSkillsFromText ''Proficient in Java and JavaScript development.'' [jsSkill, javaSkill] = Inr ids
      \<and> count_list ids (id' jsSkill) = 1 \<and> count_list ids (id' javaSkill) = 1"
    and r2: "matchTerms (wordPattern ''java'') (''I know '' @ ''JavaScript'' @ '' well'') (length ''I know '') = None"
    by blast+
  from javascript_and_java [OF h, of "''I know Java''"] o3 n2
  have r4: "extractSkillsFromText ''I know Java'' [jsSkill, javaSkill] = Inr [id' javaSkill]"
    by blast
  from javascript_and_java [OF h, of "''I know Java''"] o3 n3
  have r5: "extractSkillsFromText ''I know Java'' [jsSkill, javaSkill] = Inr [''java'']"
    by blast
  have e1: "extractSkillsFromText ''Proficient in Java and JavaScript development.'' [jsSkill, javaSkill]
      = Inr [''js'', ''java'']"
    by (simp add: eval_simps)
  have e2: "extractSkillsFromText ''I know JavaScript well'' [jsSkill, javaSkill] = Inr [''js'']"
    by (simp add: eval_simps)
  from r1 e1 have "count_list [''js'', ''java''] ''js'' = 1 \<and> count_list [''js'', ''java''] ''java'' = 1"
    by (simp add: jsSkill_def javaSkill_def)
  with e1 e2 r2 r4 r5 o3 n3 show ?thesis
    by simp
qed

text \<open>
  C3. The candidates are tested in the order of \<^verbatim>\<open>sortMatches\<close>: by the length of the
  pattern, longest first, and candidates of the same length in the order in which the
  vocabulary lists them. The output is the list of the ids of the matching candidates in
  that order, each id at its first match. For the vocabulary and the text of the
  specification's scenario the output is \<open>js\<close>, then \<open>java\<close>.
\<close>

theorem longest_first_stable_order:
  "sorted_wrt (\<lambda>a b. length (pattern b) \<le> length (pattern a)) (sortMatches (buildSkillMatches skills))
   \<and> filter (\<lambda>m. length (pattern m) = k) (sortMatches (buildSkillMatches skills))
       = filter (\<lambda>m. length (pattern m) = k) (buildSkillMatches skills)
   \<and> extractSkillsFromText text skills
       = Inr (firstOccurrences {} (matchedIds text (sortMatches (buildSkillMatches skills))))
   \<and> extractSkillsFromText ''Proficient in Java and JavaScript development.'' [jsSkill, javaSkill]
       = Inr [''js'', ''java'']"
proof -
  have "extractSkillsFromText ''Proficient in Java and JavaScript development.'' [jsSkill, javaSkill]
       = Inr [''js'', ''java'']"
    by (simp add: eval_simps)
  then show ?thesis
    using sorted_sortMatches stable_sortMatches extractSkillsFromText_eq by blast
qed

theorem longest_first_stable_order_witness:
  "sortMatches (buildSkillMatches [jsSkill, javaSkill])
     = [\<lparr>pattern = ''javascript'', matchSkillId = ''js''\<rparr>, \<lparr>pattern = ''ecmascript'', matchSkillId = ''js''\<rparr>,
        \<lparr>pattern = ''java'', matchSkillId = ''java''\<rparr>, \<lparr>pattern = ''js'', matchSkillId = ''js''\<rparr>]
   \<and> filter (\<lambda>m. length (pattern m) = 10) (buildSkillMatches [jsSkill, javaSkill])
     = [\<lparr>pattern = ''javascript'', matchSkillId = ''js''\<rparr>, \<lparr>pattern = ''ecmascript'', matchSkillId = ''js''\<rparr>]
   \<and> extractSkillsFromText ''ECMAScript, Java, JS'' [jsSkill, javaSkill] = Inr [''js'', ''java'']"
  using longest_first_stable_order [of "[jsSkill, javaSkill]" 10 "''ECMAScript, Java, JS''"]
  by (simp add: eval_simps)



text \<open>
  C9. Two invocations of the extractor on the same text and vocabulary have the same
  outcome, the same ids in the same order: the outcome of an invocation is determined by
  its arguments alone, whichever stable sort the runtime runs, and it is the value of
  \<^verbatim>\<open>extractSkillsFromText\<close>. Each invocation starts from its own empty array and set and
  from new RegExp objects, so no state of an earlier call enters.
\<close>

theorem invocation_deterministic:
  "(invocation text skills out1 \<and> invocation text skills out2 \<longrightarrow> out1 = out2)
   \<and> invocation text skills (extractSkillsFromText text skills)"
proof
  show "invocation text skills out1 \<and> invocation text skills out2 \<longrightarrow> out1 = out2"
    unfolding invocation_def using stableSortResult_unique by blast
  show "invocation text skills (extractSkillsFromText text skills)"
    unfolding invocation_def extractSkillsFromText_def
    using stableSortResult_sortMatches by blast
qed

theorem invocation_deterministic_witness:
  "invocation ''Proficient in Java and JavaScript development.'' [jsSkill, javaSkill] (Inr [''js'', ''java''])
   \<and> invocation ''Proficient in Java and JavaScript development.'' [jsSkill, javaSkill]
       (map_sum (\<lambda>e. e) extractedSkills
         (scanMatches ''Proficient in Java and JavaScript development.''
           [\<lparr>pattern = ''javascript'', matchSkillId = ''js''\<rparr>, \<lparr>pattern = ''ecmascript'', matchSkillId = ''js''\<rparr>,
            \<lparr>pattern = ''java'', matchSkillId = ''java''\<rparr>, \<lparr>pattern = ''js'', matchSkillId = ''js''\<rparr>]
           \<lparr>extractedSkills = [], seen = {}\<rparr>))
   \<and> map_sum (\<lambda>e. e) extractedSkills
         (scanMatches ''Proficient in Java and JavaScript development.''
           [\<lparr>pattern = ''javascript'', matchSkillId = ''js''\<rparr>, \<lparr>pattern = ''ecmascript'', matchSkillId = ''js''\<rparr>,
            \<lparr>pattern = ''java'', matchSkillId = ''java''\<rparr>, \<lparr>pattern = ''js'', matchSkillId = ''js''\<rparr>]
           \<lparr>extractedSkills = [], seen = {}\<rparr>) = Inr [''js'', ''java'']"
proof -
  let ?T = "''Proficient in Java and JavaScript development.''"
  let ?V = "[jsSkill, javaSkill]"
  let ?A = "[\<lparr>pattern = ''javascript'', matchSkillId = ''js''\<rparr>, \<lparr>pattern = ''ecmascript'', matchSkillId = ''js''\<rparr>,
            \<lparr>pattern = ''java'', matchSkillId = ''java''\<rparr>, \<lparr>pattern = ''js'', matchSkillId = ''js''\<rparr>]"
  let ?out2 = "map_sum (\<lambda>e. e) extractedSkills (scanMatches ?T ?A \<lparr>extractedSkills = [], seen = {}\<rparr>)"
  have e: "extractSkillsFromText ?T ?V = Inr [''js'', ''java'']"
    by (simp add: eval_simps)
  have i1: "invocation ?T ?V (Inr [''js'', ''java''])"
    using invocation_deterministic [of ?T ?V] e by simp
  have "sortMatches (buildSkillMatches ?V) = ?A"
    by (simp add: eval_simps)
  then have "stableSortResult (buildSkillMatches ?V) ?A"
    using stableSortResult_sortMatches [of "buildSkillMatches ?V"] by simp
  then have i2: "invocation ?T ?V ?out2"
    unfolding invocation_def by blast
  from invocation_deterministic [of ?T ?V "Inr [''js'', ''java'']" ?out2] i1 i2
  have "Inr [''js'', ''java''] = ?out2" by blast
  with i1 i2 show ?thesis by simp
qed

section \<open>Properties of the LinkedIn text parser\<close>

text \<open>
  C10. \<^verbatim>\<open>parseLinkedInText\<close> throws its error when the text is empty or consists of
  white space only; it does not return an empty list then. For every other text (one
  with a character that is not white space) it returns what the extractor returns on the
  text with each run of white space replaced by one space and then trimmed, and that is a
  list.
\<close>

theorem parseLinkedInText_blank_or_extract:
  "((text = [] \<or> (\<forall>c\<in>set text. WhiteSpace c)) \<longrightarrow>
      parseLinkedInText text skills = Inl (Error ''Please paste some text from your LinkedIn profile.''))
   \<and> ((\<exists>c\<in>set text. \<not> WhiteSpace c) \<longrightarrow>
      parseLinkedInText text skills = extractSkillsFromText (trim (replaceWhiteSpaceRuns text)) skills
      \<and> (\<exists>ids. parseLinkedInText text skills = Inr ids))"
proof -
  have "trim text \<noteq> [] \<and> text \<noteq> []" if "\<exists>c\<in>set text. \<not> WhiteSpace c"
    using that by (auto simp: trim_Nil_iff)
  moreover have "trim text = []" if "text = [] \<or> (\<forall>c\<in>set text. WhiteSpace c)"
    using that by (auto simp: trim_Nil_iff)
  ultimately show ?thesis
    by (auto simp: parseLinkedInText_def Let_def extractSkillsFromText_eq)
qed

theorem parseLinkedInText_blank_or_extract_witness:
  "parseLinkedInText [] [jsSkill, javaSkill] = Inl (Error ''Please paste some text from your LinkedIn profile.'')
   \<and> parseLinkedInText [CHR '' '', CHR 0x09, CHR 0x0A] [jsSkill, javaSkill]
       = Inl (Error ''Please paste some text from your LinkedIn profile.'')
   \<and> trim (replaceWhiteSpaceRuns ([CHR '' '', CHR '' ''] @ ''Java'' @ [CHR 0x09, CHR 0x0A] @ ''and  JavaScript ''))
       = ''Java and JavaScript''
   \<and> parseLinkedInText ([CHR '' '', CHR '' ''] @ ''Java'' @ [CHR 0x09, CHR 0x0A] @ ''and  JavaScript '') [jsSkill, javaSkill]
       = Inr [''js'', ''java'']"
proof -
  let ?t = "[CHR '' '', CHR '' ''] @ ''Java'' @ [CHR 0x09, CHR 0x0A] @ ''and  JavaScript ''"
  have w: "\<forall>c\<in>set [CHR '' '', CHR 0x09, CHR 0x0A]. WhiteSpace c"
    by (simp add: WhiteSpace_def codeUnit_def)
  have n: "\<exists>c\<in>set ?t. \<not> WhiteSpace c"
    by (simp add: WhiteSpace_def codeUnit_def)
  have c: "trim (replaceWhiteSpaceRuns ?t) = ''Java and JavaScript''"
    by (simp add: trim_def trimStart_def WhiteSpace_def codeUnit_def)
  have e: "extractSkillsFromText ''Java and JavaScript'' [jsSkill, javaSkill] = Inr [''js'', ''java'']"
    by (simp add: eval_simps)
  from parseLinkedInText_blank_or_extract [of "[]" "[jsSkill, javaSkill]"]
  have r0: "parseLinkedInText [] [jsSkill, javaSkill]
      = Inl (Error ''Please paste some text from your LinkedIn profile.'')"
    by simp
  from parseLinkedInText_blank_or_extract [of "[CHR '' '', CHR 0x09, CHR 0x0A]" "[jsSkill, javaSkill]"] w
  have r1: "parseLinkedInText [CHR '' '', CHR 0x09, CHR 0x0A] [jsSkill, javaSkill]
      = Inl (Error ''Please paste some text from your LinkedIn profile.'')"
    by blast
  from parseLinkedInText_blank_or_extract [of ?t "[jsSkill, javaSkill]"] n
  have "parseLinkedInText ?t [jsSkill, javaSkill]
      = extractSkillsFromText (trim (replaceWhiteSpaceRuns ?t)) [jsSkill, javaSkill]"
    by blast
  then have r2: "parseLinkedInText ?t [jsSkill, javaSkill] = Inr [''js'', ''java'']"
    by (simp only: c e)
  from r0 r1 c r2 show ?thesis by blast
qed

section \<open>Properties of the gap analyzer\<close>

text \<open>
  C6. For a role without requirements, and any user skills and vocabulary, both the
  readiness and the weighted readiness are 100, by the case of their own in
  \<^verbatim>\<open>readiness\<close> and not by a division.
\<close>

theorem no_requirements_full_readiness:
  "requiredSkills role = [] \<Longrightarrow>
     readinessPercent (analyzeGaps userSkillIds role vocabulary) = 100
     \<and> weightedReadinessPercent (analyzeGaps userSkillIds role vocabulary) = 100"
  by (simp add: analyzeGaps_def Let_def readiness_def)

theorem no_requirements_full_readiness_witness:
  "requiredSkills emptyRole = []
   \<and> readinessPercent (analyzeGaps [''java''] emptyRole [jsSkill, javaSkill]) = 100
   \<and> weightedReadinessPercent (analyzeGaps [''java''] emptyRole [jsSkill, javaSkill]) = 100"
proof -
  have h: "requiredSkills emptyRole = []" by (simp add: emptyRole_def)
  from no_requirements_full_readiness [OF h, of "[''java'']" "[jsSkill, javaSkill]"] h
  show ?thesis by simp
qed

text \<open>
  C7. For a role with at least one requirement the weighted readiness is
  \<open>round (100 * m / a)\<close>, where \<open>m\<close> is the sum of the importance of the matched
  requirements and \<open>a\<close> the sum over all requirements; the weights are the integers 1 to 3
  as they are, added up. For a role that requires one skill of importance 3, which the
  user lacks, and one of importance 1, which the user has, the weighted readiness is 25
  and the readiness is 50.
\<close>

theorem weighted_readiness_formula:
  "requiredSkills role \<noteq> [] \<Longrightarrow>
     weightedReadinessPercent (analyzeGaps userSkillIds role vocabulary)
       = round (100 * real (importanceSum (filter (\<lambda>r. skillId r \<in> set (matchedSkills (analyzeGaps userSkillIds role vocabulary))) (requiredSkills role)))
                / real (importanceSum (requiredSkills role)))
     \<and> 0 < importanceSum (requiredSkills role)
     \<and> importanceSum (r # rs) = importanceValue (importance r) + importanceSum rs
     \<and> 1 \<le> importanceValue i \<and> importanceValue i \<le> 3
     \<and> readinessPercent (analyzeGaps [''java''] scenarioRole [jsSkill, javaSkill]) = 50
     \<and> weightedReadinessPercent (analyzeGaps [''java''] scenarioRole [jsSkill, javaSkill]) = 25"
proof -
  assume ne: "requiredSkills role \<noteq> []"
  let ?n = "filter (\<lambda>u. u \<in> id' ` set vocabulary) userSkillIds"
  have "filter (\<lambda>r. skillId r \<in> set (map skillId (filter (\<lambda>r. skillId r \<in> set ?n) (requiredSkills role)))) (requiredSkills role)
      = filter (\<lambda>r. skillId r \<in> set ?n) (requiredSkills role)"
    by (rule filter_cong) auto
  then have "weightedReadinessPercent (analyzeGaps userSkillIds role vocabulary)
       = round (100 * real (importanceSum (filter (\<lambda>r. skillId r \<in> set (matchedSkills (analyzeGaps userSkillIds role vocabulary))) (requiredSkills role)))
                / real (importanceSum (requiredSkills role)))"
    using ne by (simp add: analyzeGaps_def Let_def readiness_def)
  moreover have "readinessPercent (analyzeGaps [''java''] scenarioRole [jsSkill, javaSkill]) = 50"
    by (simp add: analyzeGaps_def Let_def readiness_def scenarioRole_def jsSkill_def javaSkill_def)
  moreover have "weightedReadinessPercent (analyzeGaps [''java''] scenarioRole [jsSkill, javaSkill]) = 25"
    by (simp add: analyzeGaps_def Let_def readiness_def scenarioRole_def jsSkill_def javaSkill_def importanceSum_def)
  ultimately show ?thesis
    using importanceSum_pos [OF ne] importanceValue_range [of i]
    by (simp add: importanceSum_def)
qed

theorem weighted_readiness_formula_witness:
  "requiredSkills scenarioRole \<noteq> []
   \<and> matchedSkills (analyzeGaps [''java''] scenarioRole [jsSkill, javaSkill]) = [''java'']
   \<and> missingSkills (analyzeGaps [''java''] scenarioRole [jsSkill, javaSkill]) = [''js'']
   \<and> importanceSum (requiredSkills scenarioRole) = 4
   \<and> weightedReadinessPercent (analyzeGaps [''java''] scenarioRole [jsSkill, javaSkill]) = round (100 * 1 / (4::real))
   \<and> round (100 * 1 / (4::real)) = 25"
proof -
  have h: "requiredSkills scenarioRole \<noteq> []" by (simp add: scenarioRole_def)
  have m: "matchedSkills (analyzeGaps [''java''] scenarioRole [jsSkill, javaSkill]) = [''java'']"
    "missingSkills (analyzeGaps [''java''] scenarioRole [jsSkill, javaSkill]) = [''js'']"
    by (simp_all add: analyzeGaps_def Let_def scenarioRole_def jsSkill_def javaSkill_def)
  have s: "importanceSum (requiredSkills scenarioRole) = 4"
    "importanceSum (filter (\<lambda>r. skillId r \<in> set [''java'']) (requiredSkills scenarioRole)) = 1"
    by (simp_all add: importanceSum_def scenarioRole_def)
  from weighted_readiness_formula [OF h, of "[''java'']" "[jsSkill, javaSkill]"]
  have "weightedReadinessPercent (analyzeGaps [''java''] scenarioRole [jsSkill, javaSkill])
      = round (100 * real (importanceSum (filter (\<lambda>r. skillId r \<in> set (matchedSkills (analyzeGaps [''java''] scenarioRole [jsSkill, javaSkill]))) (requiredSkills scenarioRole)))
                / real (importanceSum (requiredSkills scenarioRole)))"
    by blast
  then have "weightedReadinessPercent (analyzeGaps [''java''] scenarioRole [jsSkill, javaSkill]) = round (100 * 1 / (4::real))"
    by (simp only: m s) simp
  moreover have "round (100 * 1 / (4::real)) = 25" by simp
  ultimately show ?thesis using h m s by simp
qed

end
